theory Spec2Isabelle
  imports Complex_Main "HOL-Library.Sublist"
begin

section \<open>Python values used by \<open>inkycal/custom/functions.py\<close>\<close>

text \<open>
  Pixel coordinates, sizes and font sizes are Python ints (\<open>int\<close>). \<open>int(f)\<close> on a float
  truncates toward zero. It is applied here to halves of ints and to differences of such
  halves (lines 91, 97 and 177), which a double holds exactly.
\<close>

definition py_int :: "real \<Rightarrow> int" where
  "py_int r = (if 0 \<le> r then \<lfloor>r\<rfloor> else \<lceil>r\<rceil>)"

text \<open>
  The fill ratios and the shrinkage are Python floats. A float is named by the real it is
  written as (\<open>0.8\<close>), and the arithmetic of doubles is a parameter of the model:
  \<open>scaled b r\<close> is the int that Python computes for \<open>int(b * r)\<close>, and \<open>shrunk n s\<close> the int
  that it computes for \<open>int(n * (1 - s))\<close>, with the rounding of the double product in them.
\<close>

type_synonym scaling = "int \<Rightarrow> real \<Rightarrow> int"

text \<open>
  The same two without any rounding. Python returns these values at the inputs of the
  concrete runs below, where the products are \<open>100.0\<close>, \<open>32.0\<close>, \<open>24.0\<close>, \<open>20.0\<close>,
  \<open>32.800000000000004\<close> and \<open>9.0\<close>.
\<close>

definition exact_scaled :: scaling where
  "exact_scaled b r = py_int (real_of_int b * r)"

definition exact_shrunk :: scaling where
  "exact_shrunk n s = py_int (real_of_int n * (1 - s))"

text \<open>
  Python compares tuples lexicographically: \<open>(a, b) > (c, d)\<close> holds when \<open>a > c\<close>, or
  when \<open>a == c\<close> and \<open>b > d\<close>.
\<close>

definition tuple_gt :: "int \<times> int \<Rightarrow> int \<times> int \<Rightarrow> bool" where
  "tuple_gt p q = (fst q < fst p \<or> (fst p = fst q \<and> snd q < snd p))"

text \<open>
  \<open>text.split(' ')\<close>: every single space separates two words, so consecutive spaces give
  empty words and the empty string gives one empty word.
\<close>

fun split_space :: "string \<Rightarrow> string list" where
  "split_space [] = [[]]"
| "split_space (c # cs) =
     (if c = CHR '' '' then [] # split_space cs
      else (case split_space cs of [] \<Rightarrow> [[c]] | w # ws \<Rightarrow> (c # w) # ws))"

section \<open>Fonts\<close>

text \<open>
  A PIL font object is a font file (\<open>font.path\<close>) opened at a point size. What FreeType
  measures for a file, a size and a text is a parameter of the model: \<open>ft p s t\<close> is the
  pair that \<open>ImageFont.truetype(p, s).getsize(t)\<close> returns.
\<close>

type_synonym freetype = "string \<Rightarrow> int \<Rightarrow> string \<Rightarrow> int \<times> int"

record font =
  path :: string
  fontsize :: int

definition truetype :: "string \<Rightarrow> int \<Rightarrow> font" where
  "truetype p s = \<lparr>path = p, fontsize = s\<rparr>"

definition getsize :: "freetype \<Rightarrow> font \<Rightarrow> string \<Rightarrow> int \<times> int" where
  "getsize ft font text = ft (path font) (fontsize font) text"

text \<open>
  The line \<open>text_width, text_height = font.getsize(text)[0], font.getsize('hg')[1]\<close>, which
  \<open>write\<close> repeats after every change of the font or of the text.
\<close>

definition text_size :: "freetype \<Rightarrow> font \<Rightarrow> string \<Rightarrow> int \<times> int" where
  "text_size ft font text = (fst (getsize ft font text), snd (getsize ft font ''hg''))"

section \<open>Images\<close>

text \<open>
  The PIL calls of the module, as the terms they build. \<open>New\<close> is \<open>Image.new('RGBA', size)\<close>;
  \<open>Text\<close>, \<open>Line\<close>, \<open>Arc\<close> and \<open>Paste\<close> are the image after the in-place call of
  \<open>ImageDraw.text\<close> (position, text, fill, font; the font mode is always \<open>"1"\<close>),
  \<open>ImageDraw.line\<close> (end points, fill, width), \<open>ImageDraw.arc\<close> (bounding box, start and end
  angle, fill, width) and \<open>Image.paste\<close> (source, position, mask); \<open>Rotate\<close> is the new image
  that \<open>Image.rotate(angle, expand=True)\<close> returns, its argument being left as it was.
\<close>

datatype image =
    New "int \<times> int"
  | Text image "int \<times> int" string string font
  | Line image "(int \<times> int) \<times> (int \<times> int)" string int
  | Arc image "(int \<times> int) \<times> (int \<times> int)" int int string int
  | Rotate image int
  | Paste image image "int \<times> int" image

section \<open>\<open>write\<close>\<close>

text \<open>
  The keyword arguments: a field is \<open>None\<close> when the key is absent. The value of
  \<open>alignment\<close> is a Python string or Python's \<open>None\<close> (\<open>string option\<close>), the value of
  \<open>rotation\<close> an angle in degrees or \<open>None\<close>. A key outside the six allowed ones is only
  printed, so it is not part of the record.
\<close>

record kwargs =
  kw_alignment :: "string option option"
  kw_autofit :: "bool option"
  kw_colour :: "string option"
  kw_rotation :: "int option option"
  kw_fill_width :: "real option"
  kw_fill_height :: "real option"

text \<open>
  Lines 72 to 76: the growth loop. Its state is the size and the font opened at that size;
  the two limits \<open>int(box_width * fill_width)\<close> and \<open>int(box_height * fill_height)\<close> do not
  change. A run that never leaves the loop is \<open>None\<close>.
\<close>

partial_function (option) autofit_loop ::
  "freetype \<Rightarrow> string \<Rightarrow> int \<Rightarrow> int \<Rightarrow> int \<Rightarrow> font \<Rightarrow> font option" where
  "autofit_loop ft text wlim hlim sz font =
     (if fst (text_size ft font text) < wlim \<and> snd (text_size ft font text) < hlim
      then autofit_loop ft text wlim hlim (sz + 1) (truetype (path font) (sz + 1))
      else Some font)"

text \<open>Lines 67 to 76: the font that the rest of \<open>write\<close> uses.\<close>

definition sized_font ::
  "scaling \<Rightarrow> freetype \<Rightarrow> font \<Rightarrow> string \<Rightarrow> int \<times> int \<Rightarrow> bool \<Rightarrow> real \<Rightarrow> real \<Rightarrow> font option" where
  "sized_font scaled ft font text box_size autofit fill_width fill_height =
     (if autofit \<or> fill_width \<noteq> 1.0 \<or> fill_height \<noteq> 0.8
      then autofit_loop ft text
             (scaled (fst box_size) fill_width)
             (scaled (snd box_size) fill_height)
             8 (truetype (path font) 8)
      else Some font)"

text \<open>
  The test of line 72 with the font of the caller's file opened at size \<open>s\<close>: the two limits
  are \<open>int(box_width * fill_width)\<close> and \<open>int(box_height * fill_height)\<close> as Python computes
  them.
\<close>

definition grows ::
  "scaling \<Rightarrow> freetype \<Rightarrow> string \<Rightarrow> string \<Rightarrow> int \<times> int \<Rightarrow> real \<Rightarrow> real \<Rightarrow> int \<Rightarrow> bool" where
  "grows scaled ft p text box_size fill_width fill_height s =
     (fst (text_size ft (truetype p s) text) < scaled (fst box_size) fill_width \<and>
      snd (text_size ft (truetype p s) text) < scaled (snd box_size) fill_height)"

text \<open>
  The same test in the words of the specification, which compares the measures with the
  products themselves, neither rounded nor truncated: width below \<open>box.width * fill_width\<close>
  and height below \<open>box.height * fill_height\<close>.
\<close>

definition spec_grows ::
  "freetype \<Rightarrow> string \<Rightarrow> string \<Rightarrow> int \<times> int \<Rightarrow> real \<Rightarrow> real \<Rightarrow> int \<Rightarrow> bool" where
  "spec_grows ft p text box_size fill_width fill_height s =
     (real_of_int (fst (text_size ft (truetype p s) text)) < real_of_int (fst box_size) * fill_width \<and>
      real_of_int (snd (text_size ft (truetype p s) text)) < real_of_int (snd box_size) * fill_height)"

text \<open>
  Lines 84 to 86: the truncation loop; \<open>text[0:-1]\<close> is \<open>butlast\<close>, also on the empty
  string. A run that never leaves the loop is \<open>None\<close>.
\<close>

partial_function (option) truncate_loop ::
  "freetype \<Rightarrow> font \<Rightarrow> int \<times> int \<Rightarrow> string \<Rightarrow> string option" where
  "truncate_loop ft font box_size text =
     (if tuple_gt (text_size ft font text) box_size
      then truncate_loop ft font box_size (butlast text)
      else Some text)"

text \<open>Lines 78 to 87: the text that is drawn.\<close>

definition truncated :: "freetype \<Rightarrow> font \<Rightarrow> int \<times> int \<Rightarrow> string \<Rightarrow> string option" where
  "truncated ft font box_size text =
     (if tuple_gt (text_size ft font text) box_size
      then truncate_loop ft font box_size text
      else Some text)"

text \<open>
  Lines 89 to 97: the position of the text inside the box. \<open>alignment == "center" or None\<close>
  is true exactly when the alignment is the string \<open>"center"\<close>: the right operand \<open>None\<close>
  is falsy. There is no \<open>else\<close> branch, so another alignment leaves \<open>x\<close> as it was unpacked
  from \<open>xy\<close> in line 64. \<open>box_width - text_width\<close> is an int, which \<open>int\<close> returns as it is.
\<close>

definition text_position ::
  "int \<times> int \<Rightarrow> int \<times> int \<Rightarrow> int \<times> int \<Rightarrow> string option \<Rightarrow> int \<times> int" where
  "text_position xy box_size tsize alignment =
     (let x = fst xy;
          box_width = fst box_size; box_height = snd box_size;
          text_width = fst tsize; text_height = snd tsize;
          x = (if alignment = Some ''center''
               then py_int (real_of_int box_width / 2 - real_of_int text_width / 2)
               else if alignment = Some ''left'' then 0
               else if alignment = Some ''right'' then box_width - text_width
               else x);
          y = py_int (real_of_int box_height / 2 - real_of_int text_height / 2)
      in (x, y))"

text \<open>
  Lines 99 to 115: the scratch layer and what is pasted. The image that \<open>rotate\<close> returns is
  bound to nothing in the source; the model binds it to \<open>rotated\<close> and, like the source,
  does not use it. For a box of negative width or height \<open>Image.new\<close> raises \<open>ValueError\<close>
  (Pillow 9.5) and nothing is drawn; the model has no value for that exception, and its
  term \<open>New box_size\<close> stands for a scratch layer only when neither is negative.
\<close>

definition composite ::
  "image \<Rightarrow> int \<times> int \<Rightarrow> int \<times> int \<Rightarrow> int \<times> int \<Rightarrow> string \<Rightarrow> string \<Rightarrow> font \<Rightarrow> int option \<Rightarrow> image" where
  "composite img xy box_size pos text colour font rotation =
     (let space = Text (New box_size) pos text colour font;
          rotated = (case rotation of None \<Rightarrow> None | Some angle \<Rightarrow> Some (Rotate space angle))
      in Paste img space xy space)"

text \<open>Lines 57 to 62: \<open>kwargs[key] if key in kwargs else default\<close>.\<close>

definition kw_get :: "'a option \<Rightarrow> 'a \<Rightarrow> 'a" where
  "kw_get v d = (case v of Some x \<Rightarrow> x | None \<Rightarrow> d)"

text \<open>
  The whole of \<open>write\<close>; the name \<open>write\<close> is a command of Isabelle, hence \<open>write_text\<close>.
  \<open>None\<close> is a call that does not return.
\<close>

definition write_text ::
  "scaling \<Rightarrow> freetype \<Rightarrow> image \<Rightarrow> int \<times> int \<Rightarrow> int \<times> int \<Rightarrow> string \<Rightarrow> font \<Rightarrow> kwargs
     \<Rightarrow> image option" where
  "write_text scaled ft img xy box_size text font kwargs =
     (let alignment = kw_get (kw_alignment kwargs) (Some ''center'');
          autofit = kw_get (kw_autofit kwargs) False;
          fill_width = kw_get (kw_fill_width kwargs) 1.0;
          fill_height = kw_get (kw_fill_height kwargs) 0.8;
          colour = kw_get (kw_colour kwargs) ''black'';
          rotation = kw_get (kw_rotation kwargs) None
      in case sized_font scaled ft font text box_size autofit fill_width fill_height of
           None \<Rightarrow> None
         | Some font \<Rightarrow>
             (case truncated ft font box_size text of
                None \<Rightarrow> None
              | Some text \<Rightarrow>
                  Some (composite img xy box_size
                          (text_position xy box_size (text_size ft font text) alignment)
                          text colour font rotation)))"

section \<open>\<open>text_wrap\<close>\<close>

text \<open>
  The font and \<open>max_width\<close> default to \<open>None\<close> in the source, with which the first line of
  the body raises; the model takes both as given.
\<close>

text \<open>
  Lines 140 to 142: the inner loop, from word \<open>i\<close> and the line built so far to the index
  and the line at its exit.
\<close>

function wrap_inner ::
  "freetype \<Rightarrow> font \<Rightarrow> int \<Rightarrow> string list \<Rightarrow> nat \<Rightarrow> string \<Rightarrow> nat \<times> string" where
  "wrap_inner ft font max_width words i line =
     (if i < length words \<and> fst (getsize ft font (line @ words ! i)) \<le> max_width
      then wrap_inner ft font max_width words (i + 1) (line @ words ! i @ '' '')
      else (i, line))"
  by pat_completeness auto
termination
  by (relation "measure (\<lambda>(ft, font, max_width, words, i, line). length words - i)") auto

declare wrap_inner.simps [simp del]

lemma wrap_inner_index:
  "wrap_inner ft font max_width words i line = (j, l) \<Longrightarrow> i \<le> j \<and> (j = i \<longrightarrow> l = line)"
proof (induction ft font max_width words i line rule: wrap_inner.induct)
  case (1 ft font max_width words i line)
  show ?case
  proof (cases "i < length words \<and> fst (getsize ft font (line @ words ! i)) \<le> max_width")
    case True
    then have "wrap_inner ft font max_width words (i + 1) (line @ words ! i @ '' '') = (j, l)"
      using "1.prems" by (subst (asm) wrap_inner.simps) simp
    from "1.IH" [OF True this] show ?thesis by simp
  next
    case False
    then show ?thesis
      using "1.prems" by (subst (asm) wrap_inner.simps) auto
  qed
qed

text \<open>
  Lines 138 to 146: the outer loop. When the inner loop leaves the line empty it has not
  moved the index, so \<open>words[i]\<close> in line 144 is the word the outer test found in range.
\<close>

function wrap_outer ::
  "freetype \<Rightarrow> font \<Rightarrow> int \<Rightarrow> string list \<Rightarrow> nat \<Rightarrow> string list \<Rightarrow> string list" where
  "wrap_outer ft font max_width words i lines =
     (if i < length words
      then (case wrap_inner ft font max_width words i [] of
              (j, line) \<Rightarrow>
                if line = []
                then wrap_outer ft font max_width words (j + 1) (lines @ [words ! j])
                else wrap_outer ft font max_width words j (lines @ [line]))
      else lines)"
  by pat_completeness auto
termination
  apply (relation "measure (\<lambda>(ft, font, max_width, words, i, lines). length words - i)")
    apply simp
   apply (auto dest!: sym [of "(_, _)" "wrap_inner _ _ _ _ _ _"] wrap_inner_index)
  done

declare wrap_outer.simps [simp del]

definition text_wrap :: "freetype \<Rightarrow> string \<Rightarrow> font \<Rightarrow> int \<Rightarrow> string list" where
  "text_wrap ft text font max_width =
     (if fst (getsize ft font text) < max_width then [text]
      else wrap_outer ft font max_width (split_space text) 0 [])"

section \<open>\<open>draw_border\<close>\<close>

text \<open>
  No statement of \<open>draw_border\<close> itself raises or returns early. The one exception that can
  leave it comes from PIL: \<open>ImageDraw.arc\<close> (Pillow 9.5) raises \<open>ValueError\<close> when the second
  corner of the bounding box lies left of or above the first. \<open>ImageDraw.line\<close> takes any
  end points.
\<close>

datatype error = ValueError

definition arc ::
  "image \<Rightarrow> (int \<times> int) \<times> (int \<times> int) \<Rightarrow> int \<Rightarrow> int \<Rightarrow> string \<Rightarrow> int \<Rightarrow> error + image" where
  "arc im box start stop fill width =
     (if fst (snd box) < fst (fst box) \<or> snd (snd box) < snd (fst box) then Inl ValueError
      else Inr (Arc im box start stop fill width))"

text \<open>
  Lines 171 to 206. The four lines are drawn before the first arc, so an exception of
  \<open>arc\<close> leaves the caller's image with the lines on it; the model returns the error alone.
\<close>

definition draw_border ::
  "scaling \<Rightarrow> image \<Rightarrow> int \<times> int \<Rightarrow> int \<times> int \<Rightarrow> int \<Rightarrow> int \<Rightarrow> real \<times> real \<Rightarrow> error + image" where
  "draw_border shrunk img xy bsize radius thickness shrinkage =
     (let colour = ''black'';
          width = shrunk (fst bsize) (fst shrinkage);
          height = shrunk (snd bsize) (snd shrinkage);
          offset_x = py_int (real_of_int (fst bsize - width) / 2);
          offset_y = py_int (real_of_int (snd bsize - height) / 2);
          x = fst xy + offset_x; y = snd xy + offset_y; diameter = radius * 2;
          a = width - diameter; b = height - diameter;
          p1 = (x + radius, y); p2 = (x + radius + a, y);
          p3 = (x + width, y + radius); p4 = (x + width, y + radius + b);
          p5 = (fst p2, y + height); p6 = (fst p1, y + height);
          p7 = (x, snd p4); p8 = (x, snd p3);
          c1 = (x, y); c2 = (x + diameter, y + diameter);
          c3 = ((x + width) - diameter, y); c4 = (x + width, y + diameter);
          c5 = ((x + width) - diameter, (y + height) - diameter); c6 = (x + width, y + height);
          c7 = (x, (y + height) - diameter); c8 = (x + diameter, y + height);
          lines = Line (Line (Line (Line img (p1, p2) colour thickness)
                    (p3, p4) colour thickness) (p5, p6) colour thickness) (p7, p8) colour thickness
      in if radius \<noteq> 0
         then (case arc lines (c1, c2) 180 270 colour thickness of
                 Inl e \<Rightarrow> Inl e
               | Inr im1 \<Rightarrow>
                   (case arc im1 (c3, c4) 270 360 colour thickness of
                      Inl e \<Rightarrow> Inl e
                    | Inr im2 \<Rightarrow>
                        (case arc im2 (c5, c6) 0 90 colour thickness of
                           Inl e \<Rightarrow> Inl e
                         | Inr im3 \<Rightarrow> arc im3 (c7, c8) 90 180 colour thickness)))
         else Inr lines)"

text \<open>
  The size of the inset box (line 174), its top left corner (lines 177 and 179), and the
  geometry that the corner arcs do not fit.
\<close>

definition inset :: "scaling \<Rightarrow> int \<times> int \<Rightarrow> real \<times> real \<Rightarrow> int \<times> int" where
  "inset shrunk bsize shrinkage =
     (shrunk (fst bsize) (fst shrinkage), shrunk (snd bsize) (snd shrinkage))"

definition corner :: "scaling \<Rightarrow> int \<times> int \<Rightarrow> int \<times> int \<Rightarrow> real \<times> real \<Rightarrow> int \<times> int" where
  "corner shrunk xy bsize shrinkage =
     (fst xy + py_int (real_of_int (fst bsize - fst (inset shrunk bsize shrinkage)) / 2),
      snd xy + py_int (real_of_int (snd bsize - snd (inset shrunk bsize shrinkage)) / 2))"

definition degenerate :: "scaling \<Rightarrow> int \<times> int \<Rightarrow> int \<Rightarrow> real \<times> real \<Rightarrow> bool" where
  "degenerate shrunk bsize radius shrinkage =
     (fst (inset shrunk bsize shrinkage) < radius * 2 \<or>
      snd (inset shrunk bsize shrinkage) < radius * 2)"

text \<open>
  The end points of the lines and the bounding boxes and angles of the arcs drawn on an
  image, in the order of drawing.
\<close>

fun edges :: "image \<Rightarrow> ((int \<times> int) \<times> (int \<times> int)) list" where
  "edges (New s) = []"
| "edges (Text im pos t c f) = edges im"
| "edges (Line im pq c w) = edges im @ [pq]"
| "edges (Arc im box s e c w) = edges im"
| "edges (Rotate im angle) = edges im"
| "edges (Paste im src pos msk) = edges im"

fun arcs :: "image \<Rightarrow> (((int \<times> int) \<times> (int \<times> int)) \<times> int \<times> int) list" where
  "arcs (New s) = []"
| "arcs (Text im pos t c f) = arcs im"
| "arcs (Line im pq c w) = arcs im"
| "arcs (Arc im box s e c w) = arcs im @ [(box, s, e)]"
| "arcs (Rotate im angle) = arcs im"
| "arcs (Paste im src pos msk) = arcs im"

section \<open>A font for the concrete runs\<close>

text \<open>
  A fixed-pitch font file: at size \<open>s\<close> every glyph is \<open>s\<close> pixels wide and a line is \<open>2 * s\<close>
  pixels high.
\<close>

definition fixed_pitch :: freetype where
  "fixed_pitch p s t = (s * int (length t), 2 * s)"

definition no_kwargs :: kwargs where
  "no_kwargs = \<lparr>kw_alignment = None, kw_autofit = None, kw_colour = None,
                 kw_rotation = None, kw_fill_width = None, kw_fill_height = None\<rparr>"

section \<open>Truncation\<close>

text \<open>
  What the truncation loop returns is a prefix of its input at which the loop test fails;
  it returns whenever the test fails at the empty string, and it never returns when the
  test holds at every prefix.
\<close>

lemma truncate_loop_Some:
  assumes "truncate_loop ft font box_size text = Some t"
  shows "prefix t text \<and> \<not> tuple_gt (text_size ft font t) box_size"
proof (rule truncate_loop.raw_induct
    [where P = "\<lambda>ft font box_size tx t. prefix t tx \<and> \<not> tuple_gt (text_size ft font t) box_size",
      OF _ assms])
  fix loop :: "freetype \<Rightarrow> font \<Rightarrow> int \<times> int \<Rightarrow> string \<Rightarrow> string option"
  fix ft font box_size tx t
  assume IH: "\<And>ft font box_size tx t. loop ft font box_size tx = Some t \<Longrightarrow>
      prefix t tx \<and> \<not> tuple_gt (text_size ft font t) box_size"
    and step: "(if tuple_gt (text_size ft font tx) box_size
                then loop ft font box_size (butlast tx) else Some tx) = Some t"
  show "prefix t tx \<and> \<not> tuple_gt (text_size ft font t) box_size"
  proof (cases "tuple_gt (text_size ft font tx) box_size")
    case True
    with step have "loop ft font box_size (butlast tx) = Some t" by simp
    then have "prefix t (butlast tx) \<and> \<not> tuple_gt (text_size ft font t) box_size"
      by (rule IH)
    moreover have "prefix (butlast tx) tx" by (rule prefixeq_butlast)
    ultimately show ?thesis by (auto intro: prefix_order.trans)
  next
    case False
    with step show ?thesis by simp
  qed
qed

lemma truncate_loop_total:
  "\<not> tuple_gt (text_size ft font []) box_size \<Longrightarrow>
     \<exists>t. truncate_loop ft font box_size text = Some t"
proof (induction "text" rule: rev_induct)
  case Nil
  then show ?case by (subst truncate_loop.simps) simp
next
  case (snoc c tx)
  then show ?case by (subst truncate_loop.simps) simp
qed


text \<open>The definitions that a concrete run unfolds.\<close>

lemmas font_defs = text_size_def getsize_def truetype_def fixed_pitch_def

lemmas write_defs = write_text_def kw_get_def no_kwargs_def sized_font_def truncated_def tuple_gt_def
  composite_def text_position_def py_int_def Let_def

lemma truncate_loop_None:
  assumes "\<And>t. prefix t text \<Longrightarrow> tuple_gt (text_size ft font t) box_size"
  shows "truncate_loop ft font box_size text = None"
proof (rule ccontr)
  assume "truncate_loop ft font box_size text \<noteq> None"
  then obtain t where "truncate_loop ft font box_size text = Some t" by auto
  then have "prefix t text" and "\<not> tuple_gt (text_size ft font t) box_size"
    using truncate_loop_Some by blast+
  with assms show False by blast
qed

lemma truncated_Some:
  assumes "truncated ft font box_size text = Some t"
  shows "prefix t text \<and> \<not> tuple_gt (text_size ft font t) box_size"
proof (cases "tuple_gt (text_size ft font text) box_size")
  case True
  with assms have "truncate_loop ft font box_size text = Some t"
    by (simp add: truncated_def)
  then show ?thesis by (rule truncate_loop_Some)
next
  case False
  with assms show ?thesis by (simp add: truncated_def)
qed

lemma truncated_total:
  assumes "\<not> tuple_gt (text_size ft font []) box_size"
  shows "\<exists>t. truncated ft font box_size text = Some t"
  using truncate_loop_total [OF assms, of "text"] by (simp add: truncated_def)

lemma truncated_step:
  assumes "tuple_gt (text_size ft font text) box_size"
  shows "truncated ft font box_size text = truncated ft font box_size (butlast text)"
proof -
  have "truncated ft font box_size text = truncate_loop ft font box_size text"
    using assms by (simp add: truncated_def)
  also have "\<dots> = truncate_loop ft font box_size (butlast text)"
    using assms by (subst truncate_loop.simps) simp
  also have "\<dots> = truncated ft font box_size (butlast text)"
  proof (cases "tuple_gt (text_size ft font (butlast text)) box_size")
    case True
    then show ?thesis by (simp add: truncated_def)
  next
    case False
    then show ?thesis by (subst truncate_loop.simps) (simp add: truncated_def)
  qed
  finally show ?thesis .
qed

text \<open>
  What lines 78 to 87 compute. The test of lines 82 and 84 compares two tuples, which is
  lexicographic: it holds when the text width exceeds the box width, or equals it while
  the reference height exceeds the box height. When it fails the text is kept; when it
  holds, the last character is dropped and the test is made again on the shorter text.
  A text that the loop returns has a measured width of at most the box width, and the
  loop returns whenever the empty string fails the test.
\<close>

lemma truncated_lexicographic:
  "(tuple_gt (text_size ft font text) box_size \<longleftrightarrow>
      fst box_size < fst (text_size ft font text) \<or>
      fst (text_size ft font text) = fst box_size \<and> snd box_size < snd (text_size ft font text))
   \<and> (\<not> tuple_gt (text_size ft font text) box_size \<longrightarrow>
        truncated ft font box_size text = Some text)
   \<and> (tuple_gt (text_size ft font text) box_size \<longrightarrow>
        truncated ft font box_size text = truncated ft font box_size (butlast text))
   \<and> (truncated ft font box_size text = Some t \<longrightarrow> fst (text_size ft font t) \<le> fst box_size)
   \<and> (\<not> tuple_gt (text_size ft font []) box_size \<longrightarrow>
        (\<exists>t. truncated ft font box_size text = Some t))"
proof (intro conjI impI)
  show "tuple_gt (text_size ft font text) box_size \<longleftrightarrow>
      fst box_size < fst (text_size ft font text) \<or>
      fst (text_size ft font text) = fst box_size \<and> snd box_size < snd (text_size ft font text)"
    by (simp add: tuple_gt_def)
next
  assume "\<not> tuple_gt (text_size ft font text) box_size"
  then show "truncated ft font box_size text = Some text" by (simp add: truncated_def)
next
  assume "tuple_gt (text_size ft font text) box_size"
  then show "truncated ft font box_size text = truncated ft font box_size (butlast text)"
    by (rule truncated_step)
next
  assume "truncated ft font box_size text = Some t"
  then have "\<not> tuple_gt (text_size ft font t) box_size"
    using truncated_Some by blast
  then show "fst (text_size ft font t) \<le> fst box_size"
    by (auto simp: tuple_gt_def)
next
  assume "\<not> tuple_gt (text_size ft font []) box_size"
  then show "\<exists>t. truncated ft font box_size text = Some t" by (rule truncated_total)
qed

text \<open>
  Claim C1 on a text that is too high. In a box of 100 by 10 the text \<open>Hi\<close> is 20 wide and
  20 high: the test \<open>(20, 20) > (100, 10)\<close> is false, truncation is not triggered, and the
  height that remains exceeds the box height. In a box of 20 by 10 the width of the same
  text fits: the test \<open>(20, 20) > (20, 10)\<close> is true, the text is cut to \<open>H\<close>, and the height
  still exceeds the box height.
\<close>

theorem truncation_ignores_height:
  "snd (100, 10) < snd (text_size fixed_pitch \<lparr>path = ''f'', fontsize = 10\<rparr> ''Hi'')
   \<and> truncated fixed_pitch \<lparr>path = ''f'', fontsize = 10\<rparr> (100, 10) ''Hi'' = Some ''Hi''
   \<and> fst (text_size fixed_pitch \<lparr>path = ''f'', fontsize = 10\<rparr> ''Hi'') \<le> fst (20, 10)
   \<and> truncated fixed_pitch \<lparr>path = ''f'', fontsize = 10\<rparr> (20, 10) ''Hi'' = Some ''H''
   \<and> snd (20, 10) < snd (text_size fixed_pitch \<lparr>path = ''f'', fontsize = 10\<rparr> ''H'')"
  by (simp add: truncated_def truncate_loop.simps tuple_gt_def font_defs)

text \<open>
  Claim C8: whenever \<open>write\<close> returns, the text it has drawn on the scratch layer, which is
  the layer it pastes, is a prefix of the input text and is not longer than it.
\<close>

theorem write_draws_prefix:
  assumes "write_text scaled ft img xy box_size text font kwargs = Some out"
  shows "\<exists>pos t colour f.
           out = Paste img (Text (New box_size) pos t colour f) xy (Text (New box_size) pos t colour f)
           \<and> prefix t text \<and> length t \<le> length text"
proof -
  let ?sf = "sized_font scaled ft font text box_size (kw_get (kw_autofit kwargs) False)
               (kw_get (kw_fill_width kwargs) 1.0) (kw_get (kw_fill_height kwargs) 0.8)"
  from assms obtain f where sf: "?sf = Some f"
    by (cases ?sf) (simp_all add: write_text_def Let_def)
  from assms sf obtain t where tr: "truncated ft f box_size text = Some t"
    by (cases "truncated ft f box_size text") (simp_all add: write_text_def Let_def)
  let ?pos = "text_position xy box_size (text_size ft f t)
                (kw_get (kw_alignment kwargs) (Some ''center''))"
  let ?colour = "kw_get (kw_colour kwargs) ''black''"
  from assms sf tr have
    out: "out = Paste img (Text (New box_size) ?pos t ?colour f) xy
                  (Text (New box_size) ?pos t ?colour f)"
    by (simp add: write_text_def composite_def Let_def)
  from tr have p: "prefix t text" using truncated_Some by blast
  then have "length t \<le> length text" by (rule prefix_length_le)
  with p out show ?thesis by blast
qed

theorem write_draws_prefix_witness:
  "write_text exact_scaled fixed_pitch (New (200, 100)) (10, 20) (25, 40) ''Hello''
     \<lparr>path = ''f'', fontsize = 10\<rparr> no_kwargs =
   Some (Paste (New (200, 100))
          (Text (New (25, 40)) (2, 10) ''He'' ''black'' \<lparr>path = ''f'', fontsize = 10\<rparr>)
          (10, 20)
          (Text (New (25, 40)) (2, 10) ''He'' ''black'' \<lparr>path = ''f'', fontsize = 10\<rparr>))
   \<and> prefix ''He'' ''Hello'' \<and> length ''He'' \<le> length ''Hello''"
proof -
  have h: "write_text exact_scaled fixed_pitch (New (200, 100)) (10, 20) (25, 40) ''Hello''
     \<lparr>path = ''f'', fontsize = 10\<rparr> no_kwargs =
   Some (Paste (New (200, 100))
          (Text (New (25, 40)) (2, 10) ''He'' ''black'' \<lparr>path = ''f'', fontsize = 10\<rparr>)
          (10, 20)
          (Text (New (25, 40)) (2, 10) ''He'' ''black'' \<lparr>path = ''f'', fontsize = 10\<rparr>))"
    by (simp add: write_defs truncate_loop.simps font_defs)
  show ?thesis using h write_draws_prefix [OF h] by auto
qed

section \<open>Autofit\<close>

text \<open>
  The growth loop, started at size \<open>k\<close> with the font opened at that size, returns the font
  opened at the first size from \<open>k\<close> upward at which its test fails, and returns nothing
  else.
\<close>

lemma py_int_mono: "a \<le> b \<Longrightarrow> py_int a \<le> py_int b"
  unfolding py_int_def
  by (auto intro: floor_mono ceiling_mono order_trans [of "\<lceil>a\<rceil>" 0 "\<lfloor>b\<rfloor>"])

lemma autofit_loop_reach:
  fixes ft :: freetype
  defines "G \<equiv> \<lambda>ft tx wlim hlim p j.
     fst (text_size ft (truetype p j) tx) < wlim \<and> snd (text_size ft (truetype p j) tx) < hlim"
  assumes "k \<le> s" and "\<not> G ft tx wlim hlim p s"
    and "\<And>j. k \<le> j \<Longrightarrow> j < s \<Longrightarrow> G ft tx wlim hlim p j"
  shows "autofit_loop ft tx wlim hlim k (truetype p k) = Some (truetype p s)"
  using assms(2-)
proof (induction "nat (s - k)" arbitrary: k)
  case 0
  then have "k = s" by simp
  with "0.prems" show ?case
    by (subst autofit_loop.simps) (auto simp: G_def)
next
  case (Suc n)
  then have lt: "k < s" by linarith
  then have g: "G ft tx wlim hlim p k" using Suc.prems by simp
  have "autofit_loop ft tx wlim hlim (k + 1) (truetype p (k + 1)) = Some (truetype p s)"
  proof (rule Suc.hyps(1))
    show "n = nat (s - (k + 1))" using Suc.hyps(2) by linarith
    show "k + 1 \<le> s" using lt by simp
    show "\<not> G ft tx wlim hlim p s" by (rule Suc.prems(2))
    show "G ft tx wlim hlim p j" if "k + 1 \<le> j" "j < s" for j
      using that Suc.prems(3) [of j] by simp
  qed
  with g show ?case
    by (subst autofit_loop.simps) (auto simp: G_def truetype_def)
qed


lemma autofit_loop_Some:
  assumes "autofit_loop ft tx wlim hlim k font = Some f"
  shows "font = truetype p k \<longrightarrow>
     (\<exists>s\<ge>k. f = truetype p s
        \<and> \<not> (fst (text_size ft (truetype p s) tx) < wlim \<and>
              snd (text_size ft (truetype p s) tx) < hlim)
        \<and> (\<forall>j. k \<le> j \<and> j < s \<longrightarrow>
              fst (text_size ft (truetype p j) tx) < wlim \<and>
              snd (text_size ft (truetype p j) tx) < hlim))"
proof (rule autofit_loop.raw_induct
    [where P = "\<lambda>ft tx wlim hlim k font f. font = truetype p k \<longrightarrow>
     (\<exists>s\<ge>k. f = truetype p s
        \<and> \<not> (fst (text_size ft (truetype p s) tx) < wlim \<and>
              snd (text_size ft (truetype p s) tx) < hlim)
        \<and> (\<forall>j. k \<le> j \<and> j < s \<longrightarrow>
              fst (text_size ft (truetype p j) tx) < wlim \<and>
              snd (text_size ft (truetype p j) tx) < hlim))", OF _ assms])
  fix loop :: "freetype \<Rightarrow> string \<Rightarrow> int \<Rightarrow> int \<Rightarrow> int \<Rightarrow> font \<Rightarrow> font option"
  fix ft tx wlim hlim k font f
  let ?G = "\<lambda>j. fst (text_size ft (truetype p j) tx) < wlim \<and>
                 snd (text_size ft (truetype p j) tx) < hlim"
  assume IH: "\<And>ft tx wlim hlim k font f. loop ft tx wlim hlim k font = Some f \<Longrightarrow>
      font = truetype p k \<longrightarrow>
     (\<exists>s\<ge>k. f = truetype p s
        \<and> \<not> (fst (text_size ft (truetype p s) tx) < wlim \<and>
              snd (text_size ft (truetype p s) tx) < hlim)
        \<and> (\<forall>j. k \<le> j \<and> j < s \<longrightarrow>
              fst (text_size ft (truetype p j) tx) < wlim \<and>
              snd (text_size ft (truetype p j) tx) < hlim))"
    and step: "(if fst (text_size ft font tx) < wlim \<and> snd (text_size ft font tx) < hlim
                then loop ft tx wlim hlim (k + 1) (truetype (path font) (k + 1))
                else Some font) = Some f"
  show "font = truetype p k \<longrightarrow> (\<exists>s\<ge>k. f = truetype p s \<and> \<not> ?G s \<and> (\<forall>j. k \<le> j \<and> j < s \<longrightarrow> ?G j))"
  proof
    assume font: "font = truetype p k"
    show "\<exists>s\<ge>k. f = truetype p s \<and> \<not> ?G s \<and> (\<forall>j. k \<le> j \<and> j < s \<longrightarrow> ?G j)"
    proof (cases "?G k")
      case True
      with step font have "loop ft tx wlim hlim (k + 1) (truetype p (k + 1)) = Some f"
        by (simp add: truetype_def)
      from IH [OF this] obtain s where s: "k + 1 \<le> s" "f = truetype p s" "\<not> ?G s"
        "\<forall>j. k + 1 \<le> j \<and> j < s \<longrightarrow> ?G j"
        by blast
      have "?G j" if "k \<le> j \<and> j < s" for j
      proof (cases "j = k")
        case True
        with \<open>?G k\<close> show ?thesis by simp
      next
        case False
        with that have "k + 1 \<le> j \<and> j < s" by simp
        with s(4) show ?thesis by blast
      qed
      with s(1-3) show ?thesis by (intro exI [of _ s]) auto
    next
      case False
      with step font have "f = truetype p k" by auto
      with False show ?thesis by (intro exI [of _ k]) auto
    qed
  qed
qed

lemma first_failure:
  fixes G :: "int \<Rightarrow> bool"
  assumes "k \<le> s'" and "\<not> G s'"
  shows "\<exists>s. k \<le> s \<and> s \<le> s' \<and> \<not> G s \<and> (\<forall>j. k \<le> j \<and> j < s \<longrightarrow> G j)"
  using assms
proof (induction "nat (s' - k)" arbitrary: k)
  case 0
  then have "k = s'" by simp
  with "0.prems" show ?case by (intro exI [of _ k]) auto
next
  case (Suc n)
  show ?case
  proof (cases "G k")
    case False
    then show ?thesis using Suc.prems by (intro exI [of _ k]) auto
  next
    case True
    have "n = nat (s' - (k + 1))" "k + 1 \<le> s'" using Suc.hyps(2) by linarith+
    from Suc.hyps(1) [OF this Suc.prems(2)]
    obtain s where s: "k + 1 \<le> s" "s \<le> s'" "\<not> G s" "\<forall>j. k + 1 \<le> j \<and> j < s \<longrightarrow> G j"
      by blast
    have "G j" if "k \<le> j \<and> j < s" for j
    proof (cases "j = k")
      case True
      with \<open>G k\<close> show ?thesis by simp
    next
      case False
      with that have "k + 1 \<le> j \<and> j < s" by simp
      with s(4) show ?thesis by blast
    qed
    with s(1-3) show ?thesis by (intro exI [of _ s]) auto
  qed
qed


lemma sized_font_autofit:
  assumes "autofit \<or> fw \<noteq> 1.0 \<or> fh \<noteq> 0.8"
  shows "sized_font scaled ft font tx box_size autofit fw fh = Some f \<longleftrightarrow>
     (\<exists>s\<ge>8. f = truetype (path font) s \<and> \<not> grows scaled ft (path font) tx box_size fw fh s
        \<and> (\<forall>k. 8 \<le> k \<and> k < s \<longrightarrow> grows scaled ft (path font) tx box_size fw fh k))"
proof
  assume "sized_font scaled ft font tx box_size autofit fw fh = Some f"
  with assms have "autofit_loop ft tx (scaled (fst box_size) fw) (scaled (snd box_size) fh)
      8 (truetype (path font) 8) = Some f"
    by (simp add: sized_font_def)
  from autofit_loop_Some [OF this, of "path font"]
  show "\<exists>s\<ge>8. f = truetype (path font) s \<and> \<not> grows scaled ft (path font) tx box_size fw fh s
        \<and> (\<forall>k. 8 \<le> k \<and> k < s \<longrightarrow> grows scaled ft (path font) tx box_size fw fh k)"
    by (simp add: grows_def)
next
  assume "\<exists>s\<ge>8. f = truetype (path font) s \<and> \<not> grows scaled ft (path font) tx box_size fw fh s
        \<and> (\<forall>k. 8 \<le> k \<and> k < s \<longrightarrow> grows scaled ft (path font) tx box_size fw fh k)"
  then obtain s where s: "8 \<le> s" "f = truetype (path font) s"
    "\<not> grows scaled ft (path font) tx box_size fw fh s"
    "\<And>k. 8 \<le> k \<Longrightarrow> k < s \<Longrightarrow> grows scaled ft (path font) tx box_size fw fh k"
    by blast
  have "autofit_loop ft tx (scaled (fst box_size) fw) (scaled (snd box_size) fh)
      8 (truetype (path font) 8) = Some (truetype (path font) s)"
    using s(1,3,4) by (intro autofit_loop_reach) (simp_all add: grows_def)
  with assms s(2) show "sized_font scaled ft font tx box_size autofit fw fh = Some f"
    by (simp add: sized_font_def)
qed

text \<open>
  Claim C6, as the code has it. Without \<open>autofit\<close> and with both fill ratios at their
  defaults the font of the caller is used as it is. Otherwise the loop starts at size 8
  and grows the size by one while the text width at the current size is below
  \<open>int(box_width * fill_width)\<close> and the reference height at the current size is below
  \<open>int(box_height * fill_height)\<close>, both limits as Python computes them from the double
  products: the call returns a font exactly when that font is the caller's file opened at
  a size \<open>s\<close> of at least 8 at which the test fails while it holds at every size from 8 up
  to \<open>s\<close>.
\<close>

theorem autofit_algorithm:
  "sized_font scaled ft font text box_size autofit fill_width fill_height = Some f \<longleftrightarrow>
     (if autofit \<or> fill_width \<noteq> 1.0 \<or> fill_height \<noteq> 0.8
      then \<exists>s\<ge>8. f = truetype (path font) s
             \<and> \<not> grows scaled ft (path font) text box_size fill_width fill_height s
             \<and> (\<forall>k. 8 \<le> k \<and> k < s \<longrightarrow>
                    grows scaled ft (path font) text box_size fill_width fill_height k)
      else f = font)"
proof (cases "autofit \<or> fill_width \<noteq> 1.0 \<or> fill_height \<noteq> 0.8")
  case True
  then show ?thesis using sized_font_autofit [OF True] by simp
next
  case False
  then show ?thesis by (auto simp: sized_font_def)
qed

theorem autofit_algorithm_witness:
  "sized_font exact_scaled fixed_pitch \<lparr>path = ''f'', fontsize = 10\<rparr> ''Hi'' (100, 40) True 1.0 0.8
     = Some (truetype ''f'' 16)
   \<and> \<not> grows exact_scaled fixed_pitch ''f'' ''Hi'' (100, 40) 1.0 0.8 16
   \<and> grows exact_scaled fixed_pitch ''f'' ''Hi'' (100, 40) 1.0 0.8 15
   \<and> sized_font exact_scaled fixed_pitch \<lparr>path = ''f'', fontsize = 10\<rparr> ''Hi'' (100, 40) False 1.0 0.8
     = Some \<lparr>path = ''f'', fontsize = 10\<rparr>"
proof -
  have g: "grows exact_scaled fixed_pitch ''f'' ''Hi'' (100, 40) 1 (4 / 5) k \<longleftrightarrow> k < 16" for k
    by (auto simp: grows_def exact_scaled_def py_int_def font_defs)
  show ?thesis
    using autofit_algorithm [of exact_scaled fixed_pitch "\<lparr>path = ''f'', fontsize = 10\<rparr>" "''Hi''"
        "(100, 40)" True "1.0" "0.8" "truetype ''f'' 16"]
      autofit_algorithm [of exact_scaled fixed_pitch "\<lparr>path = ''f'', fontsize = 10\<rparr>" "''Hi''"
        "(100, 40)" False "1.0" "0.8" "\<lparr>path = ''f'', fontsize = 10\<rparr>"]
    by (auto simp: g truetype_def)
qed

text \<open>
  The claim C6 as stated compares with the products themselves. In a box 41 high with
  the default fill ratios the product is \<open>32.8\<close> (\<open>32.800000000000004\<close> as a double) and the
  limit of the code is its truncation 32: the code stops at size 16, where the height is
  32, and there the test of the claim (\<open>32 < 32.8\<close>) still holds, so that the algorithm of
  the claim would grow the font once more.
\<close>

theorem autofit_limit_counterexample:
  "sized_font exact_scaled fixed_pitch \<lparr>path = ''f'', fontsize = 10\<rparr> ''Hi'' (100, 41) True 1.0 0.8
     = Some (truetype ''f'' 16)
   \<and> spec_grows fixed_pitch ''f'' ''Hi'' (100, 41) 1.0 0.8 16"
  by (simp add: sized_font_def autofit_loop.simps spec_grows_def exact_scaled_def py_int_def
      font_defs)

text \<open>
  Claim C7: for the same text, font, \<open>autofit\<close> flag and fill ratios (not negative), when
  the sizing returns a font for a box, it returns one for every box that is not wider
  and not higher, and the size of that font is not larger. Of the arithmetic of doubles
  the proof uses that \<open>int(b * r)\<close> does not decrease when \<open>b\<close> grows and \<open>r\<close> is not
  negative, which holds of the correctly rounded product and of the product without
  rounding.
\<close>

theorem autofit_monotone:
  assumes big: "sized_font scaled ft font text (bw', bh') autofit fill_width fill_height = Some f'"
    and box: "bw \<le> bw'" "bh \<le> bh'" and fill: "0 \<le> fill_width" "0 \<le> fill_height"
    and mono: "\<And>a b r. 0 \<le> r \<Longrightarrow> a \<le> b \<Longrightarrow> scaled a r \<le> scaled b r"
  shows "\<exists>f. sized_font scaled ft font text (bw, bh) autofit fill_width fill_height = Some f
              \<and> fontsize f \<le> fontsize f'"
proof (cases "autofit \<or> fill_width \<noteq> 1.0 \<or> fill_height \<noteq> 0.8")
  case False
  with big show ?thesis by (auto simp: sized_font_def)
next
  case True
  let ?G = "\<lambda>box. grows scaled ft (path font) text box fill_width fill_height"
  from big obtain s' where s': "8 \<le> s'" "f' = truetype (path font) s'" "\<not> ?G (bw', bh') s'"
    using sized_font_autofit [OF True] by blast
  have w: "scaled bw fill_width \<le> scaled bw' fill_width"
    using box(1) fill(1) by (rule mono [rotated])
  have h: "scaled bh fill_height \<le> scaled bh' fill_height"
    using box(2) fill(2) by (rule mono [rotated])
  have "\<not> ?G (bw, bh) s'"
    using s'(3) w h by (auto simp: grows_def)
  from first_failure [of 8 s' "?G (bw, bh)", OF s'(1) this]
  obtain s where s: "8 \<le> s" "s \<le> s'" "\<not> ?G (bw, bh) s" "\<forall>j. 8 \<le> j \<and> j < s \<longrightarrow> ?G (bw, bh) j"
    by blast
  then have "sized_font scaled ft font text (bw, bh) autofit fill_width fill_height
      = Some (truetype (path font) s)"
    using sized_font_autofit [OF True] by blast
  with s(2) s'(2) show ?thesis by (simp add: truetype_def)
qed

lemma exact_scaled_mono: "0 \<le> r \<Longrightarrow> a \<le> b \<Longrightarrow> exact_scaled a r \<le> exact_scaled b r"
  unfolding exact_scaled_def by (intro py_int_mono mult_right_mono) simp_all

theorem autofit_monotone_witness:
  "sized_font exact_scaled fixed_pitch \<lparr>path = ''f'', fontsize = 10\<rparr> ''Hi'' (100, 30) True 1.0 0.8
     = Some (truetype ''f'' 12)
   \<and> (90::int) \<le> 100 \<and> (25::int) \<le> 30 \<and> (0::real) \<le> 1.0 \<and> (0::real) \<le> 0.8
   \<and> (\<exists>f. sized_font exact_scaled fixed_pitch \<lparr>path = ''f'', fontsize = 10\<rparr> ''Hi'' (90, 25)
              True 1.0 0.8 = Some f
         \<and> fontsize f \<le> fontsize (truetype ''f'' 12))"
proof -
  have big: "sized_font exact_scaled fixed_pitch \<lparr>path = ''f'', fontsize = 10\<rparr> ''Hi'' (100, 30)
      True 1.0 0.8 = Some (truetype ''f'' 12)"
    by (simp add: sized_font_def autofit_loop.simps exact_scaled_def py_int_def font_defs)
  show ?thesis
    using big autofit_monotone [OF big, of 90 25] exact_scaled_mono by simp
qed

section \<open>Termination\<close>

text \<open>
  Claim C5 at a box of size zero: the empty string measures \<open>(0, 20)\<close>, which is greater than
  \<open>(0, 0)\<close>, so the truncation loop keeps dropping the last character of the empty string
  and \<open>write\<close> does not return.
\<close>

theorem write_zero_box_never_returns:
  "write_text scaled fixed_pitch (New (200, 100)) (0, 0) (0, 0) ''a''
     \<lparr>path = ''f'', fontsize = 10\<rparr> no_kwargs = None"
proof -
  have "tuple_gt (text_size fixed_pitch \<lparr>path = ''f'', fontsize = 10\<rparr> t) (0, 0)" for t
    by (simp add: tuple_gt_def font_defs)
  then have "truncate_loop fixed_pitch \<lparr>path = ''f'', fontsize = 10\<rparr> (0, 0) ''a'' = None"
    by (intro truncate_loop_None)
  then show ?thesis
    by (simp add: write_text_def kw_get_def no_kwargs_def sized_font_def truncated_def
        tuple_gt_def font_defs)
qed

section \<open>Rotation\<close>

text \<open>The result of \<open>write\<close> does not depend on the rotation.\<close>

lemma write_ignores_rotation:
  "write_text scaled ft img xy box_size text font (kwargs\<lparr>kw_rotation := rotation\<rparr>) =
   write_text scaled ft img xy box_size text font (kwargs\<lparr>kw_rotation := None\<rparr>)"
  by (simp add: write_text_def composite_def Let_def split: option.splits)

text \<open>
  Claim C2 at a rotation of 90 degrees: the layer that is pasted, as source and as mask,
  is the scratch layer with the text drawn on it; no \<open>Rotate\<close> occurs in the result.
\<close>

theorem write_rotation_pastes_unrotated:
  "write_text scaled fixed_pitch (New (200, 100)) (10, 20) (100, 40) ''Hi''
     \<lparr>path = ''f'', fontsize = 10\<rparr> (no_kwargs\<lparr>kw_rotation := Some (Some 90)\<rparr>) =
   Some (Paste (New (200, 100))
          (Text (New (100, 40)) (40, 10) ''Hi'' ''black'' \<lparr>path = ''f'', fontsize = 10\<rparr>)
          (10, 20)
          (Text (New (100, 40)) (40, 10) ''Hi'' ''black'' \<lparr>path = ''f'', fontsize = 10\<rparr>))"
  by (simp add: write_defs font_defs)

section \<open>Alignment\<close>

text \<open>The three alignments that the code tests for, and the vertical offset.\<close>

lemma text_position_recognised:
  "text_position xy (bw, bh) (tw, th) (Some ''left'') =
     (0, py_int (real_of_int bh / 2 - real_of_int th / 2))"
  "text_position xy (bw, bh) (tw, th) (Some ''right'') =
     (bw - tw, py_int (real_of_int bh / 2 - real_of_int th / 2))"
  "text_position xy (bw, bh) (tw, th) (Some ''center'') =
     (py_int (real_of_int bw / 2 - real_of_int tw / 2),
      py_int (real_of_int bh / 2 - real_of_int th / 2))"
  by (simp_all add: text_position_def Let_def)

text \<open>
  Claim C3 at the alignment \<open>None\<close>, with the box at \<open>x = 10\<close>: the text, 20 wide in a box
  100 wide, is drawn at the horizontal offset 10, the \<open>x\<close> of the box on the canvas, and
  not at the centred offset 40.
\<close>

theorem write_alignment_None_keeps_x:
  "write_text scaled fixed_pitch (New (200, 100)) (10, 20) (100, 40) ''Hi''
     \<lparr>path = ''f'', fontsize = 10\<rparr> (no_kwargs\<lparr>kw_alignment := Some None\<rparr>) =
   Some (Paste (New (200, 100))
          (Text (New (100, 40)) (10, 10) ''Hi'' ''black'' \<lparr>path = ''f'', fontsize = 10\<rparr>)
          (10, 20)
          (Text (New (100, 40)) (10, 10) ''Hi'' ''black'' \<lparr>path = ''f'', fontsize = 10\<rparr>))"
  by (simp add: write_defs font_defs)

section \<open>Borders\<close>

text \<open>
  With a radius that is not negative no bounding box of an arc is inverted; with a
  negative radius the first one is.
\<close>

lemma draw_border_negative_radius:
  "radius < 0 \<Longrightarrow> draw_border shrunk img xy bsize radius thickness shrinkage = Inl ValueError"
  by (simp add: draw_border_def arc_def Let_def)

text \<open>
  Claim C9, as the code has it: \<open>draw_border\<close> makes no check of the radius against the
  inset box and reports no configuration error. For every input with a radius that is
  not negative, degenerate geometry included, it returns the image with the four edges of
  the inset box drawn on it, each shortened by the radius at both ends, and, when the
  radius is not zero, with the four corner arcs, each in a square of twice the radius at
  a corner of the inset box.
\<close>

theorem draw_border_no_check:
  fixes shrunk :: scaling and xy bsize :: "int \<times> int" and shrinkage :: "real \<times> real"
  defines "w \<equiv> fst (inset shrunk bsize shrinkage)"
    and "h \<equiv> snd (inset shrunk bsize shrinkage)"
    and "x \<equiv> fst (corner shrunk xy bsize shrinkage)"
    and "y \<equiv> snd (corner shrunk xy bsize shrinkage)"
  assumes "0 \<le> radius"
  shows "\<exists>im. draw_border shrunk img xy bsize radius thickness shrinkage = Inr im
     \<and> edges im = edges img @
          [((x + radius, y), (x + w - radius, y)),
           ((x + w, y + radius), (x + w, y + h - radius)),
           ((x + w - radius, y + h), (x + radius, y + h)),
           ((x, y + h - radius), (x, y + radius))]
     \<and> arcs im = arcs img @
          (if radius = 0 then []
           else [(((x, y), (x + 2 * radius, y + 2 * radius)), 180, 270),
                 (((x + w - 2 * radius, y), (x + w, y + 2 * radius)), 270, 360),
                 (((x + w - 2 * radius, y + h - 2 * radius), (x + w, y + h)), 0, 90),
                 (((x, y + h - 2 * radius), (x + 2 * radius, y + h)), 90, 180)])"
  using assms
  by (simp add: draw_border_def arc_def inset_def corner_def Let_def)

theorem draw_border_no_check_witness:
  "(0::int) \<le> 5 \<and> degenerate exact_shrunk (10, 10) 5 (0.1, 0.1)
   \<and> (\<exists>im. draw_border exact_shrunk (New (20, 20)) (0, 0) (10, 10) 5 1 (0.1, 0.1) = Inr im
         \<and> edges im = [((5, 0), (4, 0)), ((9, 5), (9, 4)), ((4, 9), (5, 9)), ((0, 4), (0, 5))]
         \<and> arcs im = [(((0, 0), (10, 10)), 180, 270), (((- 1, 0), (9, 10)), 270, 360),
                       (((- 1, - 1), (9, 9)), 0, 90), (((0, - 1), (10, 9)), 90, 180)])"
proof -
  have i: "inset exact_shrunk (10, 10) (0.1, 0.1) = (9, 9)"
    by (simp add: inset_def exact_shrunk_def py_int_def)
  have c: "corner exact_shrunk (0, 0) (10, 10) (0.1, 0.1) = (0, 0)"
    by (simp add: corner_def i py_int_def)
  have d: "degenerate exact_shrunk (10, 10) 5 (0.1, 0.1)"
    by (simp add: degenerate_def i)
  show ?thesis
    using d draw_border_no_check
      [where shrunk = exact_shrunk and img = "New (20, 20)" and xy = "(0, 0)"
        and bsize = "(10, 10)" and radius = 5 and thickness = 1 and shrinkage = "(0.1, 0.1)"]
    by (simp add: i c)
qed

text \<open>
  The claim C9 as stated fails on a border of size 10 by 10 with radius 5: the inset box is
  9 by 9, the diameter is 10, and the four arcs are drawn in squares that leave the inset
  box, with no error.
\<close>

theorem draw_border_degenerate_counterexample:
  "degenerate exact_shrunk (10, 10) 5 (0.1, 0.1)
   \<and> draw_border exact_shrunk (New (20, 20)) (0, 0) (10, 10) 5 1 (0.1, 0.1) =
       Inr (Arc (Arc (Arc (Arc (Line (Line (Line (Line (New (20, 20))
              ((5, 0), (4, 0)) ''black'' 1) ((9, 5), (9, 4)) ''black'' 1)
              ((4, 9), (5, 9)) ''black'' 1) ((0, 4), (0, 5)) ''black'' 1)
              ((0, 0), (10, 10)) 180 270 ''black'' 1) ((- 1, 0), (9, 10)) 270 360 ''black'' 1)
              ((- 1, - 1), (9, 9)) 0 90 ''black'' 1) ((0, - 1), (10, 9)) 90 180 ''black'' 1)"
  by (simp add: degenerate_def inset_def exact_shrunk_def draw_border_def arc_def py_int_def
      Let_def)

section \<open>Word wrap\<close>

text \<open>
  The inner loop either leaves the line as it was or returns a line that ends with a
  space and was measured, without that space, as no wider than \<open>max_width\<close>. When it does
  not move the index, the next word did not fit after the line.
\<close>

lemma wrap_inner_line:
  "wrap_inner ft font max_width words i line = (j, l) \<Longrightarrow>
     length line + (j - i) \<le> length l \<and>
     (l = line \<or> (l \<noteq> [] \<and> last l = CHR '' '' \<and> fst (getsize ft font (butlast l)) \<le> max_width))"
proof (induction ft font max_width words i line rule: wrap_inner.induct)
  case (1 ft font max_width words i line)
  show ?case
  proof (cases "i < length words \<and> fst (getsize ft font (line @ words ! i)) \<le> max_width")
    case True
    then have r: "wrap_inner ft font max_width words (i + 1) (line @ words ! i @ '' '') = (j, l)"
      using "1.prems" by (subst (asm) wrap_inner.simps) simp
    from wrap_inner_index [OF r] have "i + 1 \<le> j" by simp
    moreover have "butlast (line @ words ! i @ '' '') = line @ words ! i"
      by (simp add: butlast_append)
    ultimately show ?thesis using "1.IH" [OF True r] True by auto
  next
    case False
    then show ?thesis
      using "1.prems" by (subst (asm) wrap_inner.simps) auto
  qed
qed

lemma wrap_inner_stop:
  assumes "wrap_inner ft font max_width words i line = (i, l)" and "i < length words"
  shows "max_width < fst (getsize ft font (line @ words ! i))"
proof (rule ccontr)
  assume "\<not> max_width < fst (getsize ft font (line @ words ! i))"
  with assms have "wrap_inner ft font max_width words (i + 1) (line @ words ! i @ '' '') = (i, l)"
    by (subst (asm) wrap_inner.simps) simp
  from wrap_inner_index [OF this] show False by simp
qed

lemma wrap_outer_lines:
  assumes "\<forall>l \<in> set lines. (l \<noteq> [] \<and> last l = CHR '' '' \<and> fst (getsize ft font (butlast l)) \<le> max_width) \<or>
             (l \<in> set words \<and> max_width < fst (getsize ft font l))"
  shows "\<forall>l \<in> set (wrap_outer ft font max_width words i lines).
           (l \<noteq> [] \<and> last l = CHR '' '' \<and> fst (getsize ft font (butlast l)) \<le> max_width) \<or>
           (l \<in> set words \<and> max_width < fst (getsize ft font l))"
  using assms
proof (induction ft font max_width words i lines rule: wrap_outer.induct)
  case (1 ft font max_width words i lines)
  show ?case
  proof (cases "i < length words")
    case False
    then show ?thesis using "1.prems" by (subst wrap_outer.simps) simp
  next
    case True
    obtain j line where r: "wrap_inner ft font max_width words i [] = (j, line)"
      by (cases "wrap_inner ft font max_width words i []")
    show ?thesis
    proof (cases "line = []")
      case True
      from wrap_inner_line [OF r] wrap_inner_index [OF r] True have "j = i" by simp
      with r have w: "max_width < fst (getsize ft font (words ! j))"
        using wrap_inner_stop [of ft font max_width words i "[]" line] \<open>i < length words\<close> by simp
      have "\<forall>l \<in> set (wrap_outer ft font max_width words (j + 1) (lines @ [words ! j])).
           (l \<noteq> [] \<and> last l = CHR '' '' \<and> fst (getsize ft font (butlast l)) \<le> max_width) \<or>
           (l \<in> set words \<and> max_width < fst (getsize ft font l))"
        using "1.prems" w \<open>j = i\<close> \<open>i < length words\<close>
        by (intro "1.IH"(1) [OF \<open>i < length words\<close> r [symmetric] True]) auto
      then show ?thesis
        using \<open>i < length words\<close> r True by (subst wrap_outer.simps) simp
    next
      case False
      with wrap_inner_line [OF r]
      have "last line = CHR '' '' \<and> fst (getsize ft font (butlast line)) \<le> max_width" by simp
      with False have "\<forall>l \<in> set (wrap_outer ft font max_width words j (lines @ [line])).
           (l \<noteq> [] \<and> last l = CHR '' '' \<and> fst (getsize ft font (butlast l)) \<le> max_width) \<or>
           (l \<in> set words \<and> max_width < fst (getsize ft font l))"
        using "1.prems"
        by (intro "1.IH"(2) [OF \<open>i < length words\<close> r [symmetric] False]) auto
      then show ?thesis
        using \<open>i < length words\<close> r False by (subst wrap_outer.simps) simp
    qed
  qed
qed

text \<open>
  Claim C10, as the code has it: when the whole text does not fit in one line, every line
  that \<open>text_wrap\<close> returns either ends with a space character (a line built by greedy
  accumulation) or is a single word of the input that is wider than \<open>max_width\<close> (a
  force-emitted word).
\<close>

theorem wrapped_lines_end_with_space:
  assumes "\<not> fst (getsize ft font text) < max_width"
    and "l \<in> set (text_wrap ft text font max_width)"
  shows "(l \<noteq> [] \<and> last l = CHR '' '') \<or>
         (l \<in> set (split_space text) \<and> max_width < fst (getsize ft font l))"
  using assms wrap_outer_lines [where lines = "[]" and words = "split_space text" and i = 0
      and max_width = max_width and ft = ft and font = font]
  by (auto simp: text_wrap_def)

text \<open>
  What holds of the widths: a returned line is the whole text and narrower than
  \<open>max_width\<close>, or it fits without its trailing space, or it is a single word wider than
  \<open>max_width\<close>.
\<close>

lemma wrapped_lines_fit_without_space:
  assumes "l \<in> set (text_wrap ft text font max_width)"
  shows "fst (getsize ft font l) < max_width
         \<or> (l \<noteq> [] \<and> last l = CHR '' '' \<and> fst (getsize ft font (butlast l)) \<le> max_width)
         \<or> (l \<in> set (split_space text) \<and> max_width < fst (getsize ft font l))"
  using assms wrap_outer_lines [where lines = "[]" and words = "split_space text" and i = 0
      and max_width = max_width and ft = ft and font = font]
  by (auto simp: text_wrap_def split: if_splits)


theorem wrapped_lines_end_with_space_witness:
  "\<not> fst (getsize fixed_pitch \<lparr>path = ''f'', fontsize = 1\<rparr> ''ab cdefgh i'') < 5
   \<and> text_wrap fixed_pitch ''ab cdefgh i'' \<lparr>path = ''f'', fontsize = 1\<rparr> 5
       = [''ab '', ''cdefgh'', ''i '']
   \<and> last ''ab '' = CHR '' '' \<and> ''ab '' \<notin> set (split_space ''ab cdefgh i'')
   \<and> last ''i '' = CHR '' '' \<and> ''i '' \<notin> set (split_space ''ab cdefgh i'')
   \<and> last ''cdefgh'' \<noteq> CHR '' '' \<and> ''cdefgh'' \<in> set (split_space ''ab cdefgh i'')
   \<and> 5 < fst (getsize fixed_pitch \<lparr>path = ''f'', fontsize = 1\<rparr> ''cdefgh'')"
proof -
  have a: "\<not> fst (getsize fixed_pitch \<lparr>path = ''f'', fontsize = 1\<rparr> ''ab cdefgh i'') < 5"
    by (simp add: font_defs)
  have b: "text_wrap fixed_pitch ''ab cdefgh i'' \<lparr>path = ''f'', fontsize = 1\<rparr> 5
             = [''ab '', ''cdefgh'', ''i '']"
    by code_simp
  have c: "''ab '' \<in> set (text_wrap fixed_pitch ''ab cdefgh i'' \<lparr>path = ''f'', fontsize = 1\<rparr> 5)"
    "''cdefgh'' \<in> set (text_wrap fixed_pitch ''ab cdefgh i'' \<lparr>path = ''f'', fontsize = 1\<rparr> 5)"
    "''i '' \<in> set (text_wrap fixed_pitch ''ab cdefgh i'' \<lparr>path = ''f'', fontsize = 1\<rparr> 5)"
    by (simp_all add: b)
  show ?thesis
    using a b wrapped_lines_end_with_space [OF a c(1)] wrapped_lines_end_with_space [OF a c(2)]
      wrapped_lines_end_with_space [OF a c(3)]
    by simp
qed

text \<open>
  The claim C10 as stated fails on the text \<open>ab cd\<close> with glyphs 2 wide and \<open>max_width = 4\<close>:
  the first line \<open>ab\<close> with its trailing space is built by accumulation, and it is a
  substring of the input, where a space follows \<open>ab\<close> too.
\<close>

theorem wrapped_line_substring_counterexample:
  "\<not> fst (getsize fixed_pitch \<lparr>path = ''f'', fontsize = 2\<rparr> ''ab cd'') < 4
   \<and> fst (getsize fixed_pitch \<lparr>path = ''f'', fontsize = 2\<rparr> ''ab'') \<le> 4
   \<and> text_wrap fixed_pitch ''ab cd'' \<lparr>path = ''f'', fontsize = 2\<rparr> 4 = [''ab '', ''cd '']
   \<and> sublist ''ab '' ''ab cd''"
proof -
  have "text_wrap fixed_pitch ''ab cd'' \<lparr>path = ''f'', fontsize = 2\<rparr> 4 = [''ab '', ''cd '']"
    by code_simp
  moreover have "sublist ''ab '' ''ab cd''"
    by code_simp
  ultimately show ?thesis by (simp add: font_defs)
qed

text \<open>
  Claim C4 on the text \<open>ab cd ef gh\<close> with glyphs 2 wide and \<open>max_width = 10\<close>: both returned
  lines hold two words and measure 12, more than \<open>max_width\<close>. The test of line 140 measures
  the line before line 141 appends the space.
\<close>

theorem text_wrap_line_too_wide:
  "text_wrap fixed_pitch ''ab cd ef gh'' \<lparr>path = ''f'', fontsize = 2\<rparr> 10
     = [''ab cd '', ''ef gh '']
   \<and> fst (getsize fixed_pitch \<lparr>path = ''f'', fontsize = 2\<rparr> ''ab cd '') = 12
   \<and> fst (getsize fixed_pitch \<lparr>path = ''f'', fontsize = 2\<rparr> ''ef gh '') = 12"
proof -
  have "text_wrap fixed_pitch ''ab cd ef gh'' \<lparr>path = ''f'', fontsize = 2\<rparr> 10
     = [''ab cd '', ''ef gh '']"
    by code_simp
  then show ?thesis by (simp add: font_defs)
qed

end
